theory Spec2Isabelle
  imports Main
begin

section \<open>Strings: the two standard-library functions the route builder calls\<close>

text \<open>
  A Go string is a sequence of bytes, and so is a HOL \<open>string\<close>. The builder calls
  \<open>strings.TrimSpace\<close> and \<open>strings.Contains\<close> of the Go standard library. Both are
  modelled on byte strings.

  \<open>strings.TrimSpace\<close> removes every leading and every trailing white-space rune,
  where white space is \<open>unicode.IsSpace\<close>: the six ASCII bytes tab, line feed,
  vertical tab, form feed, carriage return and space, and the code points U+0085, U+00A0,
  U+1680, U+2000 to U+200A, U+2028, U+2029, U+202F, U+205F and U+3000, here in their UTF-8
  encodings. A byte that does not start such an encoding stops the trimming, as the rune
  \<open>utf8.RuneError\<close> does in Go.
\<close>

definition spaceRunes :: "string list" where
  "spaceRunes =
     [[CHR 0x09], [CHR 0x0A], [CHR 0x0B], [CHR 0x0C], [CHR 0x0D], [CHR 0x20],
      [CHR 0xC2, CHR 0x85], [CHR 0xC2, CHR 0xA0],
      [CHR 0xE1, CHR 0x9A, CHR 0x80],
      [CHR 0xE2, CHR 0x80, CHR 0x80], [CHR 0xE2, CHR 0x80, CHR 0x81],
      [CHR 0xE2, CHR 0x80, CHR 0x82], [CHR 0xE2, CHR 0x80, CHR 0x83],
      [CHR 0xE2, CHR 0x80, CHR 0x84], [CHR 0xE2, CHR 0x80, CHR 0x85],
      [CHR 0xE2, CHR 0x80, CHR 0x86], [CHR 0xE2, CHR 0x80, CHR 0x87],
      [CHR 0xE2, CHR 0x80, CHR 0x88], [CHR 0xE2, CHR 0x80, CHR 0x89],
      [CHR 0xE2, CHR 0x80, CHR 0x8A],
      [CHR 0xE2, CHR 0x80, CHR 0xA8], [CHR 0xE2, CHR 0x80, CHR 0xA9],
      [CHR 0xE2, CHR 0x80, CHR 0xAF], [CHR 0xE2, CHR 0x81, CHR 0x9F],
      [CHR 0xE3, CHR 0x80, CHR 0x80]]"

text \<open>The number of bytes of the white-space rune a string starts with, 0 when it starts with none.\<close>

fun spaceWidthIn :: "string list \<Rightarrow> string \<Rightarrow> nat" where
  "spaceWidthIn [] s = 0"
| "spaceWidthIn (r # rs) s =
     (if r \<noteq> [] \<and> take (length r) s = r then length r else spaceWidthIn rs s)"

definition leadingSpace :: "string \<Rightarrow> nat" where
  "leadingSpace s = spaceWidthIn spaceRunes s"

text \<open>The same for the rune a string ends with.\<close>

definition trailingSpace :: "string \<Rightarrow> nat" where
  "trailingSpace s = spaceWidthIn (map rev spaceRunes) (rev s)"

lemma spaceWidthIn_le: "spaceWidthIn rs s \<le> length s"
proof (induction rs)
  case Nil
  show ?case by simp
next
  case (Cons r rs)
  have "take (length r) s = r \<Longrightarrow> length r \<le> length s"
    by (metis length_take min.cobounded1)
  with Cons show ?case by simp
qed

function TrimLeft :: "string \<Rightarrow> string" where
  "TrimLeft s = (if leadingSpace s = 0 then s else TrimLeft (drop (leadingSpace s) s))"
  by pat_completeness auto
termination
proof (relation "measure length")
  show "wf (measure length)" by simp
next
  fix s :: string
  assume "leadingSpace s \<noteq> 0"
  moreover have "leadingSpace s \<le> length s"
    unfolding leadingSpace_def by (rule spaceWidthIn_le)
  ultimately show "(drop (leadingSpace s) s, s) \<in> measure length" by simp
qed

function TrimRight :: "string \<Rightarrow> string" where
  "TrimRight s =
     (if trailingSpace s = 0 then s else TrimRight (take (length s - trailingSpace s) s))"
  by pat_completeness auto
termination
proof (relation "measure length")
  show "wf (measure length)" by simp
next
  fix s :: string
  assume "trailingSpace s \<noteq> 0"
  moreover have "trailingSpace s \<le> length s"
    unfolding trailingSpace_def using spaceWidthIn_le [of _ "rev s"] by simp
  ultimately show "(take (length s - trailingSpace s) s, s) \<in> measure length" by simp
qed

declare TrimLeft.simps [simp del] TrimRight.simps [simp del]

definition TrimSpace :: "string \<Rightarrow> string" where
  "TrimSpace s = TrimRight (TrimLeft s)"

text \<open>
  \<open>strings.Contains s substr\<close> is \<open>strings.Index s substr \<ge> 0\<close>: \<open>substr\<close> occurs in
  \<open>s\<close> at some byte offset. The empty string occurs in every string.
\<close>

fun Contains :: "string \<Rightarrow> string \<Rightarrow> bool" where
  "Contains [] substr = (substr = [])"
| "Contains (c # s) substr = (take (length substr) (c # s) = substr \<or> Contains s substr)"

section \<open>The route builder\<close>

text \<open>
  \<open>RegisterRouter\<close> is one path with its handlers. \<open>Methods\<close> is a Go map from method
  name to handler; it is given as the sequence of its key and handler pairs in the order
  in which a \<open>range\<close> loop over the map yields them. Go leaves that order unspecified, so
  every statement below is made for an arbitrary sequence. Handlers are opaque values of
  type \<open>'h\<close>.
\<close>

type_synonym 'h Methods = "(string \<times> 'h) list"

record 'h RegisterRouter =
  Path :: string
  Methods :: "'h Methods"

record 'h RegisterRouters =
  PathFixed :: string
  Routers :: "'h RegisterRouter list"

definition NewRouters :: "'h RegisterRouters" where
  "NewRouters = \<lparr>PathFixed = [], Routers = []\<rparr>"

definition AddRouter :: "string \<Rightarrow> 'h Methods \<Rightarrow> 'h RegisterRouters \<Rightarrow> 'h RegisterRouters" where
  "AddRouter path methods r = r\<lparr>Routers := Routers r @ [\<lparr>Path = path, Methods = methods\<rparr>]\<rparr>"

definition AddRouterFx :: "string \<Rightarrow> 'h Methods \<Rightarrow> 'h RegisterRouters \<Rightarrow> 'h RegisterRouters" where
  "AddRouterFx params methods r =
     (let path = TrimSpace params;
          path = (if length path > 0 then PathFixed r @ path else PathFixed r)
      in r\<lparr>Routers := Routers r @ [\<lparr>Path = path, Methods = methods\<rparr>]\<rparr>)"

definition GetAllRouters :: "'h RegisterRouters \<Rightarrow> 'h RegisterRouter list" where
  "GetAllRouters r = Routers r"

text \<open>The two filters are loops that append the matching entries to a result slice.\<close>

fun GetRouters_loop ::
  "string \<Rightarrow> 'h RegisterRouter list \<Rightarrow> 'h RegisterRouter list \<Rightarrow> 'h RegisterRouter list" where
  "GetRouters_loop path [] routers = routers"
| "GetRouters_loop path (router # rest) routers =
     GetRouters_loop path rest (if Path router = path then routers @ [router] else routers)"

definition GetRouters :: "string \<Rightarrow> 'h RegisterRouters \<Rightarrow> 'h RegisterRouter list" where
  "GetRouters path r = GetRouters_loop path (Routers r) []"

fun GetRoutersFx_loop ::
  "string \<Rightarrow> 'h RegisterRouter list \<Rightarrow> 'h RegisterRouter list \<Rightarrow> 'h RegisterRouter list" where
  "GetRoutersFx_loop fixed [] routers = routers"
| "GetRoutersFx_loop fixed (router # rest) routers =
     GetRoutersFx_loop fixed rest
       (if Contains (Path router) fixed then routers @ [router] else routers)"

definition GetRoutersFx :: "'h RegisterRouters \<Rightarrow> 'h RegisterRouter list" where
  "GetRoutersFx r = GetRoutersFx_loop (PathFixed r) (Routers r) []"

definition SetPathFixed :: "string \<Rightarrow> 'h RegisterRouters \<Rightarrow> 'h RegisterRouters" where
  "SetPathFixed path r = r\<lparr>PathFixed := path\<rparr>"

section \<open>The routing groups\<close>

text \<open>
  \<open>Kind\<close> is a Go \<open>int\<close> with seven named constants. No arithmetic is done on it, so
  it is an \<open>int\<close> here; integers other than the seven are values of the type as well.
\<close>

type_synonym Kind = int

definition ROOT :: Kind where "ROOT = 0"
definition V1 :: Kind where "V1 = 1"
definition V2 :: Kind where "V2 = 2"
definition V3 :: Kind where "V3 = 3"
definition DEV :: Kind where "DEV = 4"
definition API :: Kind where "API = 5"
definition DOCS :: Kind where "DOCS = 6"

lemmas Kind_defs = ROOT_def V1_def V2_def V3_def DEV_def API_def DOCS_def

text \<open>
  The errors the server returns (\<open>fmt.Errorf\<close>), and the two run-time panics its code can
  raise: an array index out of range and a method call through a nil pointer.
\<close>

datatype error =
    InvalidGroupType
  | UnsupportedMethod string
  | EngineTypeNotSupported
  | IndexOutOfRange
  | NilDereference

text \<open>\<open>Kind.String\<close> indexes an array literal of seven names with the receiver.\<close>

definition Kind_names :: "string list" where
  "Kind_names = [''root'', ''v1'', ''v2'', ''v3'', ''dev'', ''api'', ''docs'']"

definition Kind_String :: "Kind \<Rightarrow> error + string" where
  "Kind_String k =
     (if 0 \<le> k \<and> k < int (length Kind_names) then Inr (Kind_names ! nat k)
      else Inl IndexOutOfRange)"

section \<open>The engine\<close>

text \<open>
  The HTTP engine (the echo library) is not part of the repository. The server drives it
  through three operations: \<open>Group\<close>, which creates a group object for a prefix, \<open>Use\<close>,
  which adds a middleware to the engine or to a group, and the nine binding methods
  \<open>GET\<close>, \<open>POST\<close>, ... which add a route for one HTTP method. The state of the engine is
  the sequence of the operations it has received, in order. Middlewares are opaque values
  of type \<open>'m\<close>.

  \<open>engine\<close> is the dynamic type of the \<open>any\<close> value that \<open>registerRouters\<close> receives: the
  engine itself, one of its group objects (numbered in the order of their creation), or
  anything else, such as nil.
\<close>

datatype engine = EchoEngine | GroupEngine nat | OtherEngine

datatype ('h, 'm) call =
    NewGroup string
  | Use engine 'm
  | Add engine string string 'h

type_synonym ('h, 'm) Echo = "('h, 'm) call list"

definition MethodGet :: string where "MethodGet = ''GET''"
definition MethodHead :: string where "MethodHead = ''HEAD''"
definition MethodPost :: string where "MethodPost = ''POST''"
definition MethodPut :: string where "MethodPut = ''PUT''"
definition MethodPatch :: string where "MethodPatch = ''PATCH''"
definition MethodDelete :: string where "MethodDelete = ''DELETE''"
definition MethodConnect :: string where "MethodConnect = ''CONNECT''"
definition MethodOptions :: string where "MethodOptions = ''OPTIONS''"
definition MethodTrace :: string where "MethodTrace = ''TRACE''"

lemmas Method_defs = MethodGet_def MethodHead_def MethodPost_def MethodPut_def
  MethodPatch_def MethodDelete_def MethodConnect_def MethodOptions_def MethodTrace_def

fun isNewGroup :: "('h, 'm) call \<Rightarrow> bool" where
  "isNewGroup (NewGroup prefix) = True"
| "isNewGroup (Use en mw) = False"
| "isNewGroup (Add en method path handler) = False"

definition groupCount :: "('h, 'm) Echo \<Rightarrow> nat" where
  "groupCount e = length (filter isNewGroup e)"

text \<open>\<open>e.Group(prefix)\<close> returns a new group object.\<close>

definition Echo_Group :: "string \<Rightarrow> ('h, 'm) Echo \<Rightarrow> engine \<times> ('h, 'm) Echo" where
  "Echo_Group prefix e = (GroupEngine (groupCount e), e @ [NewGroup prefix])"

definition Echo_Use :: "engine \<Rightarrow> 'm \<Rightarrow> ('h, 'm) Echo \<Rightarrow> ('h, 'm) Echo" where
  "Echo_Use en middleware e = e @ [Use en middleware]"

text \<open>\<open>en.GET(path, handler)\<close> and its eight siblings, each adding a route for its method.\<close>

definition Echo_GET :: "engine \<Rightarrow> string \<Rightarrow> 'h \<Rightarrow> ('h, 'm) Echo \<Rightarrow> ('h, 'm) Echo" where
  "Echo_GET en path handler e = e @ [Add en MethodGet path handler]"
definition Echo_POST :: "engine \<Rightarrow> string \<Rightarrow> 'h \<Rightarrow> ('h, 'm) Echo \<Rightarrow> ('h, 'm) Echo" where
  "Echo_POST en path handler e = e @ [Add en MethodPost path handler]"
definition Echo_PUT :: "engine \<Rightarrow> string \<Rightarrow> 'h \<Rightarrow> ('h, 'm) Echo \<Rightarrow> ('h, 'm) Echo" where
  "Echo_PUT en path handler e = e @ [Add en MethodPut path handler]"
definition Echo_DELETE :: "engine \<Rightarrow> string \<Rightarrow> 'h \<Rightarrow> ('h, 'm) Echo \<Rightarrow> ('h, 'm) Echo" where
  "Echo_DELETE en path handler e = e @ [Add en MethodDelete path handler]"
definition Echo_PATCH :: "engine \<Rightarrow> string \<Rightarrow> 'h \<Rightarrow> ('h, 'm) Echo \<Rightarrow> ('h, 'm) Echo" where
  "Echo_PATCH en path handler e = e @ [Add en MethodPatch path handler]"
definition Echo_HEAD :: "engine \<Rightarrow> string \<Rightarrow> 'h \<Rightarrow> ('h, 'm) Echo \<Rightarrow> ('h, 'm) Echo" where
  "Echo_HEAD en path handler e = e @ [Add en MethodHead path handler]"
definition Echo_CONNECT :: "engine \<Rightarrow> string \<Rightarrow> 'h \<Rightarrow> ('h, 'm) Echo \<Rightarrow> ('h, 'm) Echo" where
  "Echo_CONNECT en path handler e = e @ [Add en MethodConnect path handler]"
definition Echo_OPTIONS :: "engine \<Rightarrow> string \<Rightarrow> 'h \<Rightarrow> ('h, 'm) Echo \<Rightarrow> ('h, 'm) Echo" where
  "Echo_OPTIONS en path handler e = e @ [Add en MethodOptions path handler]"
definition Echo_TRACE :: "engine \<Rightarrow> string \<Rightarrow> 'h \<Rightarrow> ('h, 'm) Echo \<Rightarrow> ('h, 'm) Echo" where
  "Echo_TRACE en path handler e = e @ [Add en MethodTrace path handler]"

lemmas Echo_binding_defs = Echo_GET_def Echo_POST_def Echo_PUT_def Echo_DELETE_def
  Echo_PATCH_def Echo_HEAD_def Echo_CONNECT_def Echo_OPTIONS_def Echo_TRACE_def

section \<open>The server\<close>

text \<open>
  Of the server's fields only the engine takes part in registration, so the server state
  is the engine state. A function returns the error, if any, with the state it leaves.
\<close>

fun Server_registerMethod ::
  "engine \<Rightarrow> string \<Rightarrow> string \<Rightarrow> 'h \<Rightarrow> ('h, 'm) Echo \<Rightarrow> error option \<times> ('h, 'm) Echo" where
  "Server_registerMethod (GroupEngine g) method path handler e =
     (if method = MethodGet then (None, Echo_GET (GroupEngine g) path handler e)
      else if method = MethodPost then (None, Echo_POST (GroupEngine g) path handler e)
      else if method = MethodPut then (None, Echo_PUT (GroupEngine g) path handler e)
      else if method = MethodDelete then (None, Echo_DELETE (GroupEngine g) path handler e)
      else if method = MethodPatch then (None, Echo_PATCH (GroupEngine g) path handler e)
      else if method = MethodHead then (None, Echo_HEAD (GroupEngine g) path handler e)
      else if method = MethodConnect then (None, Echo_CONNECT (GroupEngine g) path handler e)
      else if method = MethodOptions then (None, Echo_OPTIONS (GroupEngine g) path handler e)
      else if method = MethodTrace then (None, Echo_TRACE (GroupEngine g) path handler e)
      else (Some (UnsupportedMethod method), e))"
| "Server_registerMethod EchoEngine method path handler e =
     (if method = MethodGet then (None, Echo_GET EchoEngine path handler e)
      else if method = MethodPost then (None, Echo_POST EchoEngine path handler e)
      else if method = MethodPut then (None, Echo_PUT EchoEngine path handler e)
      else if method = MethodDelete then (None, Echo_DELETE EchoEngine path handler e)
      else if method = MethodPatch then (None, Echo_PATCH EchoEngine path handler e)
      else if method = MethodHead then (None, Echo_HEAD EchoEngine path handler e)
      else if method = MethodConnect then (None, Echo_CONNECT EchoEngine path handler e)
      else if method = MethodOptions then (None, Echo_OPTIONS EchoEngine path handler e)
      else if method = MethodTrace then (None, Echo_TRACE EchoEngine path handler e)
      else (Some (UnsupportedMethod method), e))"
| "Server_registerMethod OtherEngine method path handler e = (Some EngineTypeNotSupported, e)"

text \<open>The first loop of \<open>registerRouters\<close>: one \<open>Use\<close> per middleware, none on a foreign engine.\<close>

fun useMiddlewares :: "engine \<Rightarrow> 'm list \<Rightarrow> ('h, 'm) Echo \<Rightarrow> ('h, 'm) Echo" where
  "useMiddlewares engine [] e = e"
| "useMiddlewares engine (middleware # rest) e =
     useMiddlewares engine rest
       (case engine of
          GroupEngine g \<Rightarrow> Echo_Use (GroupEngine g) middleware e
        | EchoEngine \<Rightarrow> Echo_Use EchoEngine middleware e
        | OtherEngine \<Rightarrow> e)"

text \<open>The inner loop, over the methods of one entry, and the outer loop, over the entries.\<close>

fun registerMethods ::
  "engine \<Rightarrow> string \<Rightarrow> 'h Methods \<Rightarrow> ('h, 'm) Echo \<Rightarrow> error option \<times> ('h, 'm) Echo" where
  "registerMethods engine path [] e = (None, e)"
| "registerMethods engine path ((method, handler) # rest) e =
     (case Server_registerMethod engine method path handler e of
        (Some err, e') \<Rightarrow> (Some err, e')
      | (None, e') \<Rightarrow> registerMethods engine path rest e')"

fun registerEntries ::
  "engine \<Rightarrow> 'h RegisterRouter list \<Rightarrow> ('h, 'm) Echo \<Rightarrow> error option \<times> ('h, 'm) Echo" where
  "registerEntries engine [] e = (None, e)"
| "registerEntries engine (methods # rest) e =
     (case registerMethods engine (Path methods) (Methods methods) e of
        (Some err, e') \<Rightarrow> (Some err, e')
      | (None, e') \<Rightarrow> registerEntries engine rest e')"

text \<open>
  \<open>routers\<close> is a pointer: \<open>None\<close> is nil, and \<open>routers.GetAllRouters()\<close> on nil panics
  after the middlewares have been applied. The third component of the result is what the
  pointer refers to when the call is over.
\<close>

definition Server_registerRouters ::
  "engine \<Rightarrow> 'h RegisterRouters option \<Rightarrow> 'm list \<Rightarrow> ('h, 'm) Echo \<Rightarrow>
     error option \<times> ('h, 'm) Echo \<times> 'h RegisterRouters option" where
  "Server_registerRouters engine routers middlewares e =
     (let e1 = useMiddlewares engine middlewares e
      in case routers of
           None \<Rightarrow> (Some NilDereference, e1, None)
         | Some r \<Rightarrow>
             (case registerEntries engine (GetAllRouters r) e1 of
                (err, e2) \<Rightarrow> (err, e2, Some r)))"

definition Server_RegisterRouters ::
  "Kind \<Rightarrow> 'h RegisterRouters option \<Rightarrow> 'm list \<Rightarrow> ('h, 'm) Echo \<Rightarrow>
     error option \<times> ('h, 'm) Echo \<times> 'h RegisterRouters option" where
  "Server_RegisterRouters group' routers middlewares e =
     (if group' = ROOT then Server_registerRouters EchoEngine routers middlewares e
      else if group' \<in> {V1, V2, V3, DEV, API, DOCS} then
        (case Kind_String group' of
           Inl panic \<Rightarrow> (Some panic, e, routers)
         | Inr name \<Rightarrow>
             (case Echo_Group name e of
                (grp, e') \<Rightarrow> Server_registerRouters grp routers middlewares e'))
      else (Some InvalidGroupType, e, routers))"

section \<open>The server and the memory of the route specifications\<close>

text \<open>
  \<open>RegisterRouters\<close> receives the route specification through a pointer. To say what a
  call does to the specification, the same functions are given once more on a state that
  holds, next to the engine, the memory in which the specifications live: \<open>specs w a\<close> is
  the specification at address \<open>a\<close>, with its slice of entries and their method maps, and
  a pointer is an address or nil; a pointer that is not nil always refers to a
  specification. Every operation takes the whole state and returns the whole state, so a
  write to a specification by any of them would show in the state returned. The engine
  stores the paths, handlers and middlewares it is given and calls none of them during
  registration.
\<close>

record ('h, 'm) world =
  echo :: "('h, 'm) Echo"
  specs :: "nat \<Rightarrow> 'h RegisterRouters"

definition Echo_Group_mem ::
  "string \<Rightarrow> ('h, 'm) world \<Rightarrow> engine \<times> ('h, 'm) world" where
  "Echo_Group_mem prefix w =
     (case Echo_Group prefix (echo w) of (grp, e') \<Rightarrow> (grp, w\<lparr>echo := e'\<rparr>))"

definition Echo_Use_mem :: "engine \<Rightarrow> 'm \<Rightarrow> ('h, 'm) world \<Rightarrow> ('h, 'm) world" where
  "Echo_Use_mem en middleware w = w\<lparr>echo := Echo_Use en middleware (echo w)\<rparr>"

text \<open>
  \<open>registerMethod\<close> receives the engine, two strings and the handler, and no pointer to
  a specification: it is the function above, applied to the engine of the state.
\<close>

definition Server_registerMethod_mem ::
  "engine \<Rightarrow> string \<Rightarrow> string \<Rightarrow> 'h \<Rightarrow> ('h, 'm) world \<Rightarrow> error option \<times> ('h, 'm) world" where
  "Server_registerMethod_mem engine method path handler w =
     (case Server_registerMethod engine method path handler (echo w) of
        (err, e') \<Rightarrow> (err, w\<lparr>echo := e'\<rparr>))"

fun useMiddlewares_mem :: "engine \<Rightarrow> 'm list \<Rightarrow> ('h, 'm) world \<Rightarrow> ('h, 'm) world" where
  "useMiddlewares_mem engine [] w = w"
| "useMiddlewares_mem engine (middleware # rest) w =
     useMiddlewares_mem engine rest
       (case engine of
          GroupEngine g \<Rightarrow> Echo_Use_mem (GroupEngine g) middleware w
        | EchoEngine \<Rightarrow> Echo_Use_mem EchoEngine middleware w
        | OtherEngine \<Rightarrow> w)"

fun registerMethods_mem ::
  "engine \<Rightarrow> string \<Rightarrow> 'h Methods \<Rightarrow> ('h, 'm) world \<Rightarrow> error option \<times> ('h, 'm) world" where
  "registerMethods_mem engine path [] w = (None, w)"
| "registerMethods_mem engine path ((method, handler) # rest) w =
     (case Server_registerMethod_mem engine method path handler w of
        (Some err, w') \<Rightarrow> (Some err, w')
      | (None, w') \<Rightarrow> registerMethods_mem engine path rest w')"

fun registerEntries_mem ::
  "engine \<Rightarrow> 'h RegisterRouter list \<Rightarrow> ('h, 'm) world \<Rightarrow> error option \<times> ('h, 'm) world" where
  "registerEntries_mem engine [] w = (None, w)"
| "registerEntries_mem engine (methods # rest) w =
     (case registerMethods_mem engine (Path methods) (Methods methods) w of
        (Some err, w') \<Rightarrow> (Some err, w')
      | (None, w') \<Rightarrow> registerEntries_mem engine rest w')"

text \<open>
  The entries are read from the memory when the second loop starts, after the
  middlewares have been applied; a nil pointer panics there.
\<close>

definition Server_registerRouters_mem ::
  "engine \<Rightarrow> nat option \<Rightarrow> 'm list \<Rightarrow> ('h, 'm) world \<Rightarrow> error option \<times> ('h, 'm) world" where
  "Server_registerRouters_mem engine routers middlewares w =
     (let w1 = useMiddlewares_mem engine middlewares w
      in case routers of
           None \<Rightarrow> (Some NilDereference, w1)
         | Some a \<Rightarrow> registerEntries_mem engine (GetAllRouters (specs w1 a)) w1)"

definition Server_RegisterRouters_mem ::
  "Kind \<Rightarrow> nat option \<Rightarrow> 'm list \<Rightarrow> ('h, 'm) world \<Rightarrow> error option \<times> ('h, 'm) world" where
  "Server_RegisterRouters_mem group' routers middlewares w =
     (if group' = ROOT then Server_registerRouters_mem EchoEngine routers middlewares w
      else if group' \<in> {V1, V2, V3, DEV, API, DOCS} then
        (case Kind_String group' of
           Inl panic \<Rightarrow> (Some panic, w)
         | Inr name \<Rightarrow>
             (case Echo_Group_mem name w of
                (grp, w') \<Rightarrow> Server_registerRouters_mem grp routers middlewares w'))
      else (Some InvalidGroupType, w))"

section \<open>What a registration call does to the engine\<close>

text \<open>
  The bindings of a route specification: the method, path and handler triples in the order
  in which the two loops of \<open>registerRouters\<close> visit them.
\<close>

definition entryBindings :: "'h RegisterRouter \<Rightarrow> (string \<times> string \<times> 'h) list" where
  "entryBindings en = map (\<lambda>(method, handler). (method, Path en, handler)) (Methods en)"

definition bindings :: "'h RegisterRouters \<Rightarrow> (string \<times> string \<times> 'h) list" where
  "bindings r = concat (map entryBindings (Routers r))"

text \<open>The method names \<open>registerMethod\<close> has a case for, in the order of its switch.\<close>

definition httpMethods :: "string list" where
  "httpMethods =
     [MethodGet, MethodPost, MethodPut, MethodDelete, MethodPatch, MethodHead,
      MethodConnect, MethodOptions, MethodTrace]"

definition bindable :: "string \<times> string \<times> 'h \<Rightarrow> bool" where
  "bindable b \<longleftrightarrow> fst b \<in> set httpMethods"

text \<open>The engine operation that binds a triple, and the error of the first triple that cannot be bound.\<close>

definition route :: "engine \<Rightarrow> string \<times> string \<times> 'h \<Rightarrow> ('h, 'm) call" where
  "route en b = Add en (fst b) (fst (snd b)) (snd (snd b))"

definition firstError :: "(string \<times> string \<times> 'h) list \<Rightarrow> error option" where
  "firstError bs =
     (case dropWhile bindable bs of [] \<Rightarrow> None | b # rest \<Rightarrow> Some (UnsupportedMethod (fst b)))"

text \<open>
  The scope a valid group resolves to, and the engine once the scope is resolved: the root
  group is the engine itself, any other group is a group object created for its name.
\<close>

definition scopeOf :: "Kind \<Rightarrow> ('h, 'm) Echo \<Rightarrow> engine" where
  "scopeOf k e = (if k = ROOT then EchoEngine else GroupEngine (groupCount e))"

definition resolved :: "Kind \<Rightarrow> ('h, 'm) Echo \<Rightarrow> ('h, 'm) Echo" where
  "resolved k e = (if k = ROOT then e else e @ [NewGroup (Kind_names ! nat k)])"

section \<open>Properties of the route builder\<close>

lemmas TrimSpace_eval = TrimSpace_def TrimLeft.simps TrimRight.simps leadingSpace_def
  trailingSpace_def spaceRunes_def

lemma TrimSpace_Nil: "TrimSpace [] = []"
  by (simp add: TrimSpace_eval)

lemma spaceRune_cases:
  assumes "r \<in> set spaceRunes"
  shows "r = [CHR 0x09] \<or> r = [CHR 0x0A] \<or> r = [CHR 0x0B] \<or> r = [CHR 0x0C] \<or>
     r = [CHR 0x0D] \<or> r = [CHR 0x20] \<or> r = [CHR 0xC2, CHR 0x85] \<or> r = [CHR 0xC2, CHR 0xA0] \<or>
     r = [CHR 0xE1, CHR 0x9A, CHR 0x80] \<or>
     r = [CHR 0xE2, CHR 0x80, CHR 0x80] \<or> r = [CHR 0xE2, CHR 0x80, CHR 0x81] \<or>
     r = [CHR 0xE2, CHR 0x80, CHR 0x82] \<or> r = [CHR 0xE2, CHR 0x80, CHR 0x83] \<or>
     r = [CHR 0xE2, CHR 0x80, CHR 0x84] \<or> r = [CHR 0xE2, CHR 0x80, CHR 0x85] \<or>
     r = [CHR 0xE2, CHR 0x80, CHR 0x86] \<or> r = [CHR 0xE2, CHR 0x80, CHR 0x87] \<or>
     r = [CHR 0xE2, CHR 0x80, CHR 0x88] \<or> r = [CHR 0xE2, CHR 0x80, CHR 0x89] \<or>
     r = [CHR 0xE2, CHR 0x80, CHR 0x8A] \<or>
     r = [CHR 0xE2, CHR 0x80, CHR 0xA8] \<or> r = [CHR 0xE2, CHR 0x80, CHR 0xA9] \<or>
     r = [CHR 0xE2, CHR 0x80, CHR 0xAF] \<or> r = [CHR 0xE2, CHR 0x81, CHR 0x9F] \<or>
     r = [CHR 0xE3, CHR 0x80, CHR 0x80]"
  using assms unfolding spaceRunes_def by simp

lemma spaceRune_not_Nil: "r \<in> set spaceRunes \<Longrightarrow> r \<noteq> []"
  using spaceRune_cases [of r] by auto

lemma leadingSpace_rune:
  assumes "r \<in> set spaceRunes"
  shows "leadingSpace (r @ s) = length r"
  using spaceRune_cases [OF assms]
  by (elim disjE) (simp_all add: leadingSpace_def spaceRunes_def)

lemma TrimLeft_spaces: "set rs \<subseteq> set spaceRunes \<Longrightarrow> TrimLeft (concat rs) = []"
proof (induction rs)
  case Nil
  show ?case by (simp add: TrimLeft.simps leadingSpace_def spaceRunes_def)
next
  case (Cons r rs)
  then have r: "r \<in> set spaceRunes" and rest: "TrimLeft (concat rs) = []" by simp_all
  have "TrimLeft (r @ concat rs) = TrimLeft (drop (length r) (r @ concat rs))"
    using spaceRune_not_Nil [OF r] leadingSpace_rune [OF r, of "concat rs"]
    by (subst TrimLeft.simps) simp
  with rest show ?case by simp
qed

lemma TrimRight_Nil: "TrimRight [] = []"
  by (simp add: TrimRight.simps trailingSpace_def spaceRunes_def)

lemma TrimSpace_spaces: "set rs \<subseteq> set spaceRunes \<Longrightarrow> TrimSpace (concat rs) = []"
  by (simp add: TrimSpace_def TrimLeft_spaces TrimRight_Nil)

lemma spaceWidthIn_zero:
  "spaceWidthIn rs s = 0 \<longleftrightarrow> (\<forall>r \<in> set rs. r = [] \<or> take (length r) s \<noteq> r)"
  by (induction rs) auto

lemma leadingSpace_zero:
  "leadingSpace s = 0 \<longleftrightarrow> (\<forall>r \<in> set spaceRunes. take (length r) s \<noteq> r)"
  unfolding leadingSpace_def spaceWidthIn_zero using spaceRune_not_Nil by blast

lemma trailingSpace_zero:
  "trailingSpace s = 0 \<longleftrightarrow> (\<forall>r \<in> set spaceRunes. take (length r) (rev s) \<noteq> rev r)"
  unfolding trailingSpace_def spaceWidthIn_zero using spaceRune_not_Nil by auto

text \<open>
  The first byte of a white-space rune is an ASCII white-space byte or one of the lead
  bytes C2, E1, E2 and E3; no later byte of a rune is one of these.
\<close>

lemma spaceRune_bytes:
  assumes "r \<in> set spaceRunes"
  shows "hd r \<in> {CHR 0x09, CHR 0x0A, CHR 0x0B, CHR 0x0C, CHR 0x0D, CHR 0x20,
                 CHR 0xC2, CHR 0xE1, CHR 0xE2, CHR 0xE3}
       \<and> set (tl r) \<inter> {CHR 0x09, CHR 0x0A, CHR 0x0B, CHR 0x0C, CHR 0x0D, CHR 0x20,
                 CHR 0xC2, CHR 0xE1, CHR 0xE2, CHR 0xE3} = {}"
  using spaceRune_cases [OF assms] by (elim disjE) simp_all

lemma concat_spaces_hd:
  "set rs \<subseteq> set spaceRunes \<Longrightarrow> concat rs \<noteq> [] \<Longrightarrow>
   hd (concat rs) \<in> {CHR 0x09, CHR 0x0A, CHR 0x0B, CHR 0x0C, CHR 0x0D, CHR 0x20,
                 CHR 0xC2, CHR 0xE1, CHR 0xE2, CHR 0xE3}"
proof (induction rs)
  case Nil
  then show ?case by simp
next
  case (Cons r rs)
  then have r: "r \<in> set spaceRunes" by simp
  then have "r \<noteq> []" by (rule spaceRune_not_Nil)
  then have "hd (concat (r # rs)) = hd r" by simp
  with spaceRune_bytes [OF r] show ?case by simp
qed

lemma leadingSpace_core:
  assumes core: "\<forall>r \<in> set spaceRunes. take (length r) core \<noteq> r"
    and ne: "core \<noteq> []"
    and rs: "set rs \<subseteq> set spaceRunes"
  shows "leadingSpace (core @ concat rs) = 0"
  unfolding leadingSpace_zero
proof
  fix r
  assume r: "r \<in> set spaceRunes"
  show "take (length r) (core @ concat rs) \<noteq> r"
  proof
    assume eq: "take (length r) (core @ concat rs) = r"
    show False
    proof (cases "length r \<le> length core")
      case True
      with eq have "take (length r) core = r" by simp
      with core r show False by blast
    next
      case False
      then have len: "length core < length r" by simp
      from eq have "r = core @ take (length r - length core) (concat rs)"
        using len by simp
      moreover define us where "us = take (length r - length core) (concat rs)"
      ultimately have split: "r = core @ us" by simp
      have "us \<noteq> []"
        using split len by auto
      then have x: "concat rs \<noteq> []" and hd_us: "hd us = hd (concat rs)"
        unfolding us_def by (auto simp: hd_take)
      obtain c cs where c: "core = c # cs"
        using ne by (cases core) auto
      have "hd us \<in> set (tl r)"
        using split c \<open>us \<noteq> []\<close> by simp
      with spaceRune_bytes [OF r] concat_spaces_hd [OF rs x] hd_us show False
        by auto
    qed
  qed
qed

lemma TrimLeft_skip_spaces:
  "set ls \<subseteq> set spaceRunes \<Longrightarrow> TrimLeft (concat ls @ t) = TrimLeft t"
proof (induction ls)
  case Nil
  show ?case by simp
next
  case (Cons r ls)
  then have r: "r \<in> set spaceRunes" and rest: "TrimLeft (concat ls @ t) = TrimLeft t"
    by simp_all
  have "TrimLeft (r @ concat ls @ t) = TrimLeft (drop (length r) (r @ concat ls @ t))"
    using spaceRune_not_Nil [OF r] leadingSpace_rune [OF r, of "concat ls @ t"]
    by (subst TrimLeft.simps) simp
  with rest show ?case by simp
qed

lemma trailingSpace_rune:
  assumes "r \<in> set spaceRunes"
  shows "trailingSpace (s @ r) = length r"
  using spaceRune_cases [OF assms]
  by (elim disjE) (simp_all add: trailingSpace_def spaceRunes_def)

lemma TrimRight_skip_spaces:
  "set rs \<subseteq> set spaceRunes \<Longrightarrow> TrimRight (t @ concat rs) = TrimRight t"
proof (induction rs rule: rev_induct)
  case Nil
  show ?case by simp
next
  case (snoc r rs)
  then have r: "r \<in> set spaceRunes" and rest: "TrimRight (t @ concat rs) = TrimRight t"
    by simp_all
  have "TrimRight ((t @ concat rs) @ r) =
        TrimRight (take (length ((t @ concat rs) @ r) - length r) ((t @ concat rs) @ r))"
    using spaceRune_not_Nil [OF r] trailingSpace_rune [OF r, of "t @ concat rs"]
    by (subst TrimRight.simps) simp
  with rest show ?case by simp
qed

text \<open>
  What \<open>TrimSpace\<close> returns, stated without it: when a string is a run of white-space
  runes, a core that neither starts nor ends with a white-space rune, and another run of
  white-space runes, the result is the core.
\<close>

lemma TrimSpace_core:
  assumes ls: "set ls \<subseteq> set spaceRunes" and rs: "set rs \<subseteq> set spaceRunes"
    and core: "\<forall>r \<in> set spaceRunes.
        take (length r) core \<noteq> r \<and> drop (length core - length r) core \<noteq> r"
  shows "TrimSpace (concat ls @ core @ concat rs) = core"
proof (cases "core = []")
  case True
  have "concat ls @ concat rs = concat (ls @ rs)" by simp
  moreover have "set (ls @ rs) \<subseteq> set spaceRunes" using ls rs by simp
  ultimately show ?thesis
    using True TrimSpace_spaces [of "ls @ rs"] by simp
next
  case False
  have lead: "leadingSpace (core @ concat rs) = 0"
    using core False rs by (intro leadingSpace_core) auto
  have trail: "trailingSpace core = 0"
    unfolding trailingSpace_zero
  proof
    fix r
    assume r: "r \<in> set spaceRunes"
    show "take (length r) (rev core) \<noteq> rev r"
    proof
      assume "take (length r) (rev core) = rev r"
      then have "rev (take (length r) (rev core)) = r" by simp
      then have "drop (length core - length r) core = r"
        by (simp add: rev_take)
      with core r show False by blast
    qed
  qed
  have "TrimLeft (concat ls @ core @ concat rs) = TrimLeft (core @ concat rs)"
    using ls by (rule TrimLeft_skip_spaces)
  also have "\<dots> = core @ concat rs"
    using lead by (subst TrimLeft.simps) simp
  finally have left: "TrimLeft (concat ls @ core @ concat rs) = core @ concat rs" .
  have "TrimRight (core @ concat rs) = TrimRight core"
    using rs by (rule TrimRight_skip_spaces)
  also have "\<dots> = core"
    using trail by (subst TrimRight.simps) simp
  finally show ?thesis
    by (simp add: TrimSpace_def left)
qed

lemma spaceWidthIn_mem:
  "spaceWidthIn rs s \<noteq> 0 \<Longrightarrow> take (spaceWidthIn rs s) s \<in> set rs"
  by (induction rs) auto

lemma TrimLeft_split:
  "\<exists>ls. set ls \<subseteq> set spaceRunes \<and> s = concat ls @ TrimLeft s"
proof (induction s rule: TrimLeft.induct)
  case (1 s)
  show ?case
  proof (cases "leadingSpace s = 0")
    case True
    then have "TrimLeft s = s" by (subst TrimLeft.simps) simp
    then have "set [] \<subseteq> set spaceRunes \<and> s = concat [] @ TrimLeft s" by simp
    then show ?thesis by blast
  next
    case False
    from "1" [OF False] obtain ls where ls: "set ls \<subseteq> set spaceRunes"
      "drop (leadingSpace s) s = concat ls @ TrimLeft (drop (leadingSpace s) s)" by blast
    have r: "take (leadingSpace s) s \<in> set spaceRunes"
      using False spaceWidthIn_mem [of spaceRunes s] by (simp add: leadingSpace_def)
    have step: "TrimLeft s = TrimLeft (drop (leadingSpace s) s)"
      using False by (subst TrimLeft.simps) simp
    have "s = take (leadingSpace s) s @ drop (leadingSpace s) s" by simp
    with ls(2) step have "s = concat (take (leadingSpace s) s # ls) @ TrimLeft s"
      by (metis append.assoc concat.simps(2))
    moreover have "set (take (leadingSpace s) s # ls) \<subseteq> set spaceRunes"
      using r ls(1) by simp
    ultimately show ?thesis by blast
  qed
qed

lemma TrimLeft_done: "leadingSpace (TrimLeft s) = 0"
proof (induction s rule: TrimLeft.induct)
  case (1 s)
  show ?case
  proof (cases "leadingSpace s = 0")
    case True
    then have "TrimLeft s = s" by (subst TrimLeft.simps) simp
    with True show ?thesis by simp
  next
    case False
    then have "TrimLeft s = TrimLeft (drop (leadingSpace s) s)"
      by (subst TrimLeft.simps) simp
    with "1" [OF False] show ?thesis by simp
  qed
qed

lemma TrimRight_split:
  "\<exists>rs. set rs \<subseteq> set spaceRunes \<and> s = TrimRight s @ concat rs"
proof (induction s rule: TrimRight.induct)
  case (1 s)
  show ?case
  proof (cases "trailingSpace s = 0")
    case True
    then have "TrimRight s = s" by (subst TrimRight.simps) simp
    then have "set [] \<subseteq> set spaceRunes \<and> s = TrimRight s @ concat []" by simp
    then show ?thesis by blast
  next
    case False
    let ?n = "length s - trailingSpace s"
    from "1" [OF False] obtain rs where rs: "set rs \<subseteq> set spaceRunes"
      "take ?n s = TrimRight (take ?n s) @ concat rs" by blast
    have w: "trailingSpace s \<le> length s"
      unfolding trailingSpace_def using spaceWidthIn_le [of _ "rev s"] by simp
    have "take (trailingSpace s) (rev s) \<in> set (map rev spaceRunes)"
      using False spaceWidthIn_mem [of "map rev spaceRunes" "rev s"]
      by (simp add: trailingSpace_def)
    then obtain r where r: "r \<in> set spaceRunes" "take (trailingSpace s) (rev s) = rev r"
      by auto
    from r(2) have "rev (take (trailingSpace s) (rev s)) = r" by simp
    then have last: "drop ?n s = r" by (simp add: rev_take)
    have step: "TrimRight s = TrimRight (take ?n s)"
      using False by (subst TrimRight.simps) simp
    have "s = take ?n s @ drop ?n s" by simp
    with rs(2) step last have "s = TrimRight s @ concat (rs @ [r])"
      by (metis append.assoc append_Nil2 concat.simps(1) concat.simps(2) concat_append)
    moreover have "set (rs @ [r]) \<subseteq> set spaceRunes"
      using r(1) rs(1) by simp
    ultimately show ?thesis by blast
  qed
qed

lemma TrimRight_done: "trailingSpace (TrimRight s) = 0"
proof (induction s rule: TrimRight.induct)
  case (1 s)
  show ?case
  proof (cases "trailingSpace s = 0")
    case True
    then have "TrimRight s = s" by (subst TrimRight.simps) simp
    with True show ?thesis by simp
  next
    case False
    then have "TrimRight s = TrimRight (take (length s - trailingSpace s) s)"
      by (subst TrimRight.simps) simp
    with "1" [OF False] show ?thesis by simp
  qed
qed

lemma TrimSpace_split:
  "\<exists>ls rs. set ls \<subseteq> set spaceRunes \<and> set rs \<subseteq> set spaceRunes \<and>
     (\<forall>r \<in> set spaceRunes.
        take (length r) (TrimSpace s) \<noteq> r \<and>
        drop (length (TrimSpace s) - length r) (TrimSpace s) \<noteq> r) \<and>
     s = concat ls @ TrimSpace s @ concat rs"
proof -
  obtain ls where ls: "set ls \<subseteq> set spaceRunes" "s = concat ls @ TrimLeft s"
    using TrimLeft_split by blast
  obtain rs where rs: "set rs \<subseteq> set spaceRunes" "TrimLeft s = TrimSpace s @ concat rs"
    using TrimRight_split [of "TrimLeft s"] by (auto simp: TrimSpace_def)
  have core: "take (length r) (TrimSpace s) \<noteq> r \<and>
        drop (length (TrimSpace s) - length r) (TrimSpace s) \<noteq> r"
    if r: "r \<in> set spaceRunes" for r
  proof
    show "take (length r) (TrimSpace s) \<noteq> r"
    proof
      assume eq: "take (length r) (TrimSpace s) = r"
      then have "length r \<le> length (TrimSpace s)"
        by (metis length_take min.cobounded1)
      with eq have "take (length r) (TrimSpace s @ concat rs) = r" by simp
      with rs(2) have "take (length r) (TrimLeft s) = r" by simp
      with TrimLeft_done [of s] r show False
        unfolding leadingSpace_zero by blast
    qed
    show "drop (length (TrimSpace s) - length r) (TrimSpace s) \<noteq> r"
    proof
      assume "drop (length (TrimSpace s) - length r) (TrimSpace s) = r"
      then have "take (length r) (rev (TrimSpace s)) = rev r"
        by (metis rev_drop rev_rev_ident rev_take length_rev)
      with TrimRight_done [of "TrimLeft s"] r show False
        unfolding trailingSpace_zero TrimSpace_def by blast
    qed
  qed
  from ls rs core show ?thesis by (metis append.assoc)
qed

text \<open>
  Claim C4. \<open>AddRouterFx\<close> appends one entry and changes nothing else. The path of the
  entry is the stored fixed prefix followed by the trimmed argument when the argument is
  not empty, and the fixed prefix alone when it is empty. The trimmed argument is stated
  without \<open>TrimSpace\<close> as well: every argument is a run of white-space runes, a core that
  neither starts nor ends with a white-space rune, and another run of white-space runes,
  and the path stored is the fixed prefix followed by that core. After
  \<open>SetPathFixed "/api"\<close> the argument \<open>""\<close> gives the path \<open>/api\<close>, the argument \<open>/x\<close>
  gives \<open>/api/x\<close>, and so does \<open>/x\<close> between a space and a tab on the left and a space,
  a no-break space and a line feed on the right.
\<close>

theorem AddRouterFx_path:
  "AddRouterFx params methods r =
     r\<lparr>Routers := Routers r @
        [\<lparr>Path = (if params \<noteq> [] then PathFixed r @ TrimSpace params else PathFixed r),
          Methods = methods\<rparr>]\<rparr>
   \<and> Routers (AddRouterFx [] methods (SetPathFixed ''/api'' r)) =
       Routers r @ [\<lparr>Path = ''/api'', Methods = methods\<rparr>]
   \<and> Routers (AddRouterFx ''/x'' methods (SetPathFixed ''/api'' r)) =
       Routers r @ [\<lparr>Path = ''/api/x'', Methods = methods\<rparr>]
   \<and> (set ls \<subseteq> set spaceRunes \<and> set rs \<subseteq> set spaceRunes \<and>
       (\<forall>rune \<in> set spaceRunes.
          take (length rune) core \<noteq> rune \<and> drop (length core - length rune) core \<noteq> rune) \<longrightarrow>
       AddRouterFx (concat ls @ core @ concat rs) methods r =
         r\<lparr>Routers := Routers r @ [\<lparr>Path = PathFixed r @ core, Methods = methods\<rparr>]\<rparr>)
   \<and> (\<exists>ls rs core. set ls \<subseteq> set spaceRunes \<and> set rs \<subseteq> set spaceRunes \<and>
       (\<forall>rune \<in> set spaceRunes.
          take (length rune) core \<noteq> rune \<and> drop (length core - length rune) core \<noteq> rune) \<and>
       params = concat ls @ core @ concat rs)
   \<and> Routers (AddRouterFx
         ([CHR 0x20, CHR 0x09] @ ''/x'' @ [CHR 0x20, CHR 0xC2, CHR 0xA0, CHR 0x0A])
         methods (SetPathFixed ''/api'' r)) =
       Routers r @ [\<lparr>Path = ''/api/x'', Methods = methods\<rparr>]"
proof (intro conjI impI)
  show "AddRouterFx params methods r =
     r\<lparr>Routers := Routers r @
        [\<lparr>Path = (if params \<noteq> [] then PathFixed r @ TrimSpace params else PathFixed r),
          Methods = methods\<rparr>]\<rparr>"
    by (cases "TrimSpace params = []") (auto simp: AddRouterFx_def Let_def TrimSpace_Nil)
  show "Routers (AddRouterFx [] methods (SetPathFixed ''/api'' r)) =
       Routers r @ [\<lparr>Path = ''/api'', Methods = methods\<rparr>]"
    by (simp add: AddRouterFx_def SetPathFixed_def TrimSpace_Nil)
  have "TrimSpace ''/x'' = ''/x''"
    by (simp add: TrimSpace_eval)
  then show "Routers (AddRouterFx ''/x'' methods (SetPathFixed ''/api'' r)) =
       Routers r @ [\<lparr>Path = ''/api/x'', Methods = methods\<rparr>]"
    by (simp add: AddRouterFx_def SetPathFixed_def)
  show "AddRouterFx (concat ls @ core @ concat rs) methods r =
         r\<lparr>Routers := Routers r @ [\<lparr>Path = PathFixed r @ core, Methods = methods\<rparr>]\<rparr>"
    if "set ls \<subseteq> set spaceRunes \<and> set rs \<subseteq> set spaceRunes \<and>
       (\<forall>rune \<in> set spaceRunes.
          take (length rune) core \<noteq> rune \<and> drop (length core - length rune) core \<noteq> rune)"
  proof -
    from that have "TrimSpace (concat ls @ core @ concat rs) = core"
      by (intro TrimSpace_core) auto
    then show ?thesis
      by (simp add: AddRouterFx_def Let_def)
  qed
  show "\<exists>ls rs core. set ls \<subseteq> set spaceRunes \<and> set rs \<subseteq> set spaceRunes \<and>
       (\<forall>rune \<in> set spaceRunes.
          take (length rune) core \<noteq> rune \<and> drop (length core - length rune) core \<noteq> rune) \<and>
       params = concat ls @ core @ concat rs"
    using TrimSpace_split [of params] by blast
  have "TrimSpace ([CHR 0x20, CHR 0x09] @ ''/x'' @ [CHR 0x20, CHR 0xC2, CHR 0xA0, CHR 0x0A]) = ''/x''"
    by (simp add: TrimSpace_eval)
  then show "Routers (AddRouterFx
         ([CHR 0x20, CHR 0x09] @ ''/x'' @ [CHR 0x20, CHR 0xC2, CHR 0xA0, CHR 0x0A])
         methods (SetPathFixed ''/api'' r)) =
       Routers r @ [\<lparr>Path = ''/api/x'', Methods = methods\<rparr>]"
    by (simp add: AddRouterFx_def SetPathFixed_def)
qed

theorem AddRouterFx_path_witness:
  "set [[CHR 0x20], [CHR 0x09]] \<subseteq> set spaceRunes \<and>
   set [[CHR 0x20], [CHR 0xC2, CHR 0xA0], [CHR 0x0A]] \<subseteq> set spaceRunes \<and>
   AddRouterFx
     (concat [[CHR 0x20], [CHR 0x09]] @ ''/x y'' @ concat [[CHR 0x20], [CHR 0xC2, CHR 0xA0], [CHR 0x0A]])
     [(''GET'', 5::nat)] \<lparr>PathFixed = ''/api'', Routers = []\<rparr> =
   \<lparr>PathFixed = ''/api'', Routers = [\<lparr>Path = ''/api/x y'', Methods = [(''GET'', 5)]\<rparr>]\<rparr>"
proof -
  let ?ls = "[[CHR 0x20], [CHR 0x09]]"
  let ?rs = "[[CHR 0x20], [CHR 0xC2, CHR 0xA0], [CHR 0x0A]]"
  let ?r = "\<lparr>PathFixed = ''/api'', Routers = []\<rparr> :: nat RegisterRouters"
  have l: "set ?ls \<subseteq> set spaceRunes"
    by (simp add: spaceRunes_def)
  have r: "set ?rs \<subseteq> set spaceRunes"
    by (simp add: spaceRunes_def)
  have c: "\<forall>rune \<in> set spaceRunes.
      take (length rune) ''/x y'' \<noteq> rune \<and> drop (length ''/x y'' - length rune) ''/x y'' \<noteq> rune"
    by (simp add: spaceRunes_def)
  from AddRouterFx_path [of "[]" "[(''GET'', 5::nat)]" ?r ?ls ?rs "''/x y''"] l r c
  have "AddRouterFx (concat ?ls @ ''/x y'' @ concat ?rs) [(''GET'', 5::nat)] ?r =
      ?r\<lparr>Routers := Routers ?r @ [\<lparr>Path = PathFixed ?r @ ''/x y'', Methods = [(''GET'', 5)]\<rparr>]\<rparr>"
    by blast
  with l r show ?thesis by simp
qed

text \<open>
  Claim C9. A string made of white-space runes only trims to the empty string, and when
  the argument of \<open>AddRouterFx\<close> is not empty but trims to the empty string, the path of
  the new entry is the fixed prefix exactly: the emptiness test is made on the trimmed
  argument, not on the argument.
\<close>

theorem AddRouterFx_blank:
  "(set rs \<subseteq> set spaceRunes \<longrightarrow> TrimSpace (concat rs) = []) \<and>
   (params \<noteq> [] \<and> TrimSpace params = [] \<longrightarrow>
      AddRouterFx params methods r =
        r\<lparr>Routers := Routers r @ [\<lparr>Path = PathFixed r, Methods = methods\<rparr>]\<rparr>)"
  by (simp add: TrimSpace_spaces AddRouterFx_def)

theorem AddRouterFx_blank_witness:
  "set [[CHR 0x20], [CHR 0x09], [CHR 0xC2, CHR 0xA0]] \<subseteq> set spaceRunes \<and>
   TrimSpace (concat [[CHR 0x20], [CHR 0x09], [CHR 0xC2, CHR 0xA0]]) = [] \<and>
   ''   '' \<noteq> [] \<and> TrimSpace ''   '' = [] \<and>
   AddRouterFx ''   '' [(''GET'', 5::nat)] \<lparr>PathFixed = ''/api'', Routers = []\<rparr> =
     \<lparr>PathFixed = ''/api'', Routers = [\<lparr>Path = ''/api'', Methods = [(''GET'', 5)]\<rparr>]\<rparr>"
proof -
  have s: "set [[CHR 0x20], [CHR 0x09], [CHR 0xC2, CHR 0xA0]] \<subseteq> set spaceRunes"
    by (simp add: spaceRunes_def)
  have t: "TrimSpace ''   '' = []"
    by (simp add: TrimSpace_eval)
  have n: "''   '' \<noteq> []" by simp
  from AddRouterFx_blank [of "[[CHR 0x20], [CHR 0x09], [CHR 0xC2, CHR 0xA0]]" "''   ''"
      "[(''GET'', 5::nat)]" "\<lparr>PathFixed = ''/api'', Routers = []\<rparr>"] s t n
  show ?thesis by simp
qed

text \<open>
  Claim C6. \<open>SetPathFixed\<close> leaves the entries as they are. An entry appended with
  \<open>AddRouterFx\<close> keeps the path computed from the prefix stored when it was appended,
  whatever prefix is set afterwards.
\<close>

theorem SetPathFixed_keeps_entries:
  "Routers (SetPathFixed path r) = Routers r
   \<and> Routers (SetPathFixed path (AddRouterFx params methods r)) =
       Routers r @
         [\<lparr>Path = (if TrimSpace params \<noteq> [] then PathFixed r @ TrimSpace params else PathFixed r),
           Methods = methods\<rparr>]
   \<and> Routers (SetPathFixed path (AddRouter p methods r)) =
       Routers r @ [\<lparr>Path = p, Methods = methods\<rparr>]"
  by (simp add: SetPathFixed_def AddRouterFx_def AddRouter_def Let_def)

lemma take_eq_iff_prefix: "take (length ys) xs = ys \<longleftrightarrow> (\<exists>q. xs = ys @ q)"
  by (metis append_eq_conv_conj append_take_drop_id)

lemma Contains_iff: "Contains s substr \<longleftrightarrow> (\<exists>p q. s = p @ substr @ q)"
proof (induction s)
  case Nil
  show ?case by auto
next
  case (Cons c s)
  have "(\<exists>p q. c # s = p @ substr @ q) \<longleftrightarrow>
        (\<exists>q. c # s = substr @ q) \<or> (\<exists>p q. s = p @ substr @ q)"
  proof
    assume "\<exists>p q. c # s = p @ substr @ q"
    then obtain p q where pq: "c # s = p @ substr @ q" by blast
    show "(\<exists>q. c # s = substr @ q) \<or> (\<exists>p q. s = p @ substr @ q)"
    proof (cases p)
      case Nil
      with pq show ?thesis by auto
    next
      case (Cons a p')
      with pq have "s = p' @ substr @ q" by simp
      then show ?thesis by blast
    qed
  next
    assume "(\<exists>q. c # s = substr @ q) \<or> (\<exists>p q. s = p @ substr @ q)"
    then show "\<exists>p q. c # s = p @ substr @ q"
    proof
      assume "\<exists>q. c # s = substr @ q"
      then obtain q where "c # s = [] @ substr @ q" by auto
      then show ?thesis by blast
    next
      assume "\<exists>p q. s = p @ substr @ q"
      then obtain p q where "c # s = (c # p) @ substr @ q" by auto
      then show ?thesis by blast
    qed
  qed
  with Cons show ?case
    by (simp only: Contains.simps take_eq_iff_prefix)
qed

lemma GetRoutersFx_loop_filter:
  "GetRoutersFx_loop fixed rs acc = acc @ filter (\<lambda>router. Contains (Path router) fixed) rs"
  by (induction rs arbitrary: acc) auto

text \<open>
  Claim C7. \<open>GetRoutersFx\<close> returns, in insertion order, exactly the entries whose path
  has the stored fixed prefix as a substring at any position. With the prefix \<open>/api\<close>, an
  entry with the path \<open>/x/api/y\<close> is returned and an entry with the path \<open>/other\<close> is not.
\<close>

theorem GetRoutersFx_substring:
  "GetRoutersFx r = filter (\<lambda>router. \<exists>p q. Path router = p @ PathFixed r @ q) (Routers r)
   \<and> GetRoutersFx
       (AddRouter ''/x/api/y'' m3 (AddRouter ''/other'' m2
          (AddRouterFx ''/t'' m1 (SetPathFixed ''/api'' NewRouters)))) =
       [\<lparr>Path = ''/api/t'', Methods = m1\<rparr>, \<lparr>Path = ''/x/api/y'', Methods = m3\<rparr>]"
proof
  show "GetRoutersFx r = filter (\<lambda>router. \<exists>p q. Path router = p @ PathFixed r @ q) (Routers r)"
    by (simp add: GetRoutersFx_def GetRoutersFx_loop_filter Contains_iff)
  have "TrimSpace ''/t'' = ''/t''"
    by (simp add: TrimSpace_eval)
  then show "GetRoutersFx
       (AddRouter ''/x/api/y'' m3 (AddRouter ''/other'' m2
          (AddRouterFx ''/t'' m1 (SetPathFixed ''/api'' NewRouters)))) =
       [\<lparr>Path = ''/api/t'', Methods = m1\<rparr>, \<lparr>Path = ''/x/api/y'', Methods = m3\<rparr>]"
    by (simp add: GetRoutersFx_def AddRouter_def AddRouterFx_def SetPathFixed_def NewRouters_def)
qed

section \<open>Properties of the routing groups\<close>

lemma Kind_String_valid:
  "0 \<le> k \<Longrightarrow> k \<le> 6 \<Longrightarrow> Kind_String k = Inr (Kind_names ! nat k)"
  by (simp add: Kind_String_def Kind_names_def)

lemma Kind_valid_cases:
  "ROOT \<le> k \<Longrightarrow> k \<le> DOCS \<Longrightarrow> k = ROOT \<or> k \<in> {V1, V2, V3, DEV, API, DOCS}"
  by (auto simp: Kind_defs)

lemma Kind_String_table:
  "Kind_String 0 = Inr ''root''" "Kind_String 1 = Inr ''v1''" "Kind_String 2 = Inr ''v2''"
  "Kind_String 3 = Inr ''v3''" "Kind_String 4 = Inr ''dev''" "Kind_String 5 = Inr ''api''"
  "Kind_String 6 = Inr ''docs''"
  by (simp_all add: Kind_String_def Kind_names_def)

lemma Kind_range: "(0::int) \<le> k \<Longrightarrow> k \<le> 6 \<Longrightarrow> k \<in> {0, 1, 2, 3, 4, 5, 6}"
  by auto

text \<open>
  Claim C1, as the code has it. For every value from \<open>ROOT\<close> to \<open>DOCS\<close>, \<open>ROOT\<close>
  included, \<open>Kind.String\<close> returns a name that is not empty and that no other value of
  the enumeration has; the name of \<open>ROOT\<close> is \<open>root\<close>; on a value outside the
  enumeration the array index is out of range and the call panics.
\<close>

theorem Kind_String_names:
  "(ROOT \<le> k \<and> k \<le> DOCS \<longrightarrow>
      (\<exists>name. Kind_String k = Inr name \<and> name \<noteq> [] \<and>
         (\<forall>k'. ROOT \<le> k' \<and> k' \<le> DOCS \<and> k' \<noteq> k \<longrightarrow> Kind_String k' \<noteq> Inr name)))
   \<and> Kind_String ROOT = Inr ''root''
   \<and> (k < ROOT \<or> DOCS < k \<longrightarrow> Kind_String k = Inl IndexOutOfRange)"
proof (intro conjI impI)
  assume "ROOT \<le> k \<and> k \<le> DOCS"
  then have k: "k \<in> {0, 1, 2, 3, 4, 5, 6}"
    using Kind_range by (simp add: Kind_defs)
  have other: "Kind_String k' \<noteq> Kind_String k"
    if "ROOT \<le> k' \<and> k' \<le> DOCS \<and> k' \<noteq> k" for k'
  proof -
    from that have "k' \<in> {0, 1, 2, 3, 4, 5, 6}"
      using Kind_range by (simp add: Kind_defs)
    with k that show ?thesis
      by (auto simp: Kind_String_table)
  qed
  from k have "\<exists>name. Kind_String k = Inr name \<and> name \<noteq> []"
    by (auto simp: Kind_String_table)
  then obtain name where name: "Kind_String k = Inr name" "name \<noteq> []" by blast
  with other have "\<forall>k'. ROOT \<le> k' \<and> k' \<le> DOCS \<and> k' \<noteq> k \<longrightarrow> Kind_String k' \<noteq> Inr name"
    by auto
  with name show "\<exists>name. Kind_String k = Inr name \<and> name \<noteq> [] \<and>
         (\<forall>k'. ROOT \<le> k' \<and> k' \<le> DOCS \<and> k' \<noteq> k \<longrightarrow> Kind_String k' \<noteq> Inr name)"
    by blast
next
  show "Kind_String ROOT = Inr ''root''"
    by (simp add: ROOT_def Kind_String_table)
next
  assume "k < ROOT \<or> DOCS < k"
  then show "Kind_String k = Inl IndexOutOfRange"
    by (auto simp: Kind_String_def Kind_names_def Kind_defs)
qed

theorem Kind_String_names_witness:
  "ROOT \<le> V1 \<and> V1 \<le> DOCS \<and>
   (\<exists>name. Kind_String V1 = Inr name \<and> name \<noteq> [] \<and>
      (\<forall>k'. ROOT \<le> k' \<and> k' \<le> DOCS \<and> k' \<noteq> V1 \<longrightarrow> Kind_String k' \<noteq> Inr name)) \<and>
   DOCS < 999 \<and> Kind_String 999 = Inl IndexOutOfRange"
  using Kind_String_names [of V1] Kind_String_names [of 999]
  by (simp add: Kind_defs)

text \<open>
  The claim as the specification states it fails at two inputs: the name of \<open>ROOT\<close> is
  \<open>root\<close>, not the empty string, and on 999 the call panics, it does not return the
  invalid-group error.
\<close>

theorem Kind_String_counterexample:
  "Kind_String ROOT = Inr ''root'' \<and> Kind_String ROOT \<noteq> Inr [] \<and>
   Kind_String 999 = Inl IndexOutOfRange \<and> Kind_String 999 \<noteq> Inl InvalidGroupType \<and>
   Kind_String (- 1) = Inl IndexOutOfRange"
  by (simp add: Kind_String_def Kind_names_def ROOT_def)

section \<open>Properties of registration\<close>

lemma registerMethod_unsupported:
  "engine \<noteq> OtherEngine \<Longrightarrow> method \<notin> set httpMethods \<Longrightarrow>
   Server_registerMethod engine method path handler e = (Some (UnsupportedMethod method), e)"
  by (cases engine) (simp_all add: httpMethods_def)

lemma registerMethod_supported:
  "engine \<noteq> OtherEngine \<Longrightarrow> method \<in> set httpMethods \<Longrightarrow>
   Server_registerMethod engine method path handler e =
     (None, e @ [Add engine method path handler])"
  by (cases engine) (auto simp: httpMethods_def Echo_binding_defs Method_defs)

lemma registerMethod_scope:
  "engine \<noteq> OtherEngine \<Longrightarrow>
   Server_registerMethod engine method path handler e =
     (if method \<in> set httpMethods then (None, e @ [Add engine method path handler])
      else (Some (UnsupportedMethod method), e))"
  by (simp add: registerMethod_supported registerMethod_unsupported
      del: Server_registerMethod.simps)

lemma set_httpMethods:
  "set httpMethods =
     {''GET'', ''POST'', ''PUT'', ''DELETE'', ''PATCH'', ''HEAD'', ''CONNECT'', ''OPTIONS'',
      ''TRACE''}"
  by (simp add: httpMethods_def Method_defs)

text \<open>
  Claim C5. On the engine itself and on a group, \<open>registerMethod\<close> binds the route and
  returns no error exactly when the method is one of GET, POST, PUT, DELETE, PATCH, HEAD,
  CONNECT, OPTIONS and TRACE; for every other method string it returns the
  unsupported-method error and binds nothing.
\<close>

theorem registerMethod_methods:
  assumes "engine = EchoEngine \<or> engine = GroupEngine g"
  shows "Server_registerMethod engine method path handler e =
     (if method \<in> {''GET'', ''POST'', ''PUT'', ''DELETE'', ''PATCH'', ''HEAD'', ''CONNECT'',
          ''OPTIONS'', ''TRACE''}
      then (None, e @ [Add engine method path handler])
      else (Some (UnsupportedMethod method), e))"
proof -
  from assms have "engine \<noteq> OtherEngine" by auto
  then show ?thesis
    unfolding set_httpMethods [symmetric] by (rule registerMethod_scope)
qed

theorem registerMethod_methods_witness:
  "Server_registerMethod (GroupEngine 0) ''PATCH'' ''/p'' (1::nat) ([] :: (nat, nat) Echo) =
     (None, [Add (GroupEngine 0) ''PATCH'' ''/p'' 1]) \<and>
   Server_registerMethod EchoEngine ''get'' ''/p'' (1::nat) ([] :: (nat, nat) Echo) =
     (Some (UnsupportedMethod ''get''), [])"
  using registerMethod_methods [of "GroupEngine 0" 0 "''PATCH''" "''/p''" "1::nat" "[] :: (nat, nat) Echo"]
    registerMethod_methods [of EchoEngine 0 "''get''" "''/p''" "1::nat" "[] :: (nat, nat) Echo"]
  by simp

lemma useMiddlewares_scope:
  "engine \<noteq> OtherEngine \<Longrightarrow> useMiddlewares engine mws e = e @ map (Use engine) mws"
  by (induction mws arbitrary: e) (auto simp: Echo_Use_def split: engine.splits)

lemma firstError_Cons:
  "firstError (b # bs) = (if bindable b then firstError bs else Some (UnsupportedMethod (fst b)))"
  by (simp add: firstError_def)

lemma firstError_None: "firstError bs = None \<longleftrightarrow> (\<forall>b \<in> set bs. bindable b)"
proof (induction bs)
  case Nil
  show ?case by (simp add: firstError_def)
next
  case (Cons b bs)
  then show ?case by (simp add: firstError_Cons)
qed

lemma firstError_append:
  "firstError (xs @ ys) = (case firstError xs of None \<Rightarrow> firstError ys | Some err \<Rightarrow> Some err)"
proof (cases "\<forall>b \<in> set xs. bindable b")
  case True
  then show ?thesis
    using firstError_None [of xs] by (simp add: firstError_def)
next
  case False
  then obtain x where x: "x \<in> set xs" "\<not> bindable x" by blast
  then have "dropWhile bindable (xs @ ys) = dropWhile bindable xs @ ys"
    by (rule dropWhile_append1)
  moreover have "dropWhile bindable xs \<noteq> []"
    using x by auto
  ultimately show ?thesis
    by (cases "dropWhile bindable xs") (simp_all add: firstError_def)
qed

lemma takeWhile_bindable_append:
  "takeWhile bindable (xs @ ys) =
     (case firstError xs of None \<Rightarrow> xs @ takeWhile bindable ys | Some err \<Rightarrow> takeWhile bindable xs)"
proof (cases "\<forall>b \<in> set xs. bindable b")
  case True
  then show ?thesis
    using firstError_None [of xs] by simp
next
  case False
  then obtain x where x: "x \<in> set xs" "\<not> bindable x" by blast
  then have "takeWhile bindable (xs @ ys) = takeWhile bindable xs"
    by (rule takeWhile_append1)
  moreover have "firstError xs \<noteq> None"
    using False by (simp add: firstError_None)
  ultimately show ?thesis by auto
qed

lemma registerMethods_scope:
  "engine \<noteq> OtherEngine \<Longrightarrow>
   registerMethods engine path ms e =
     (firstError (map (\<lambda>(method, handler). (method, path, handler)) ms),
      e @ map (route engine)
            (takeWhile bindable (map (\<lambda>(method, handler). (method, path, handler)) ms)))"
proof (induction ms arbitrary: e)
  case Nil
  show ?case by (simp add: firstError_def)
next
  case (Cons mh ms)
  obtain m h where mh: "mh = (m, h)" by (cases mh)
  show ?case
    using Cons.prems Cons.IH [OF Cons.prems]
    by (simp add: mh registerMethod_scope firstError_Cons bindable_def route_def
        del: Server_registerMethod.simps)
qed

lemma registerEntries_scope:
  "engine \<noteq> OtherEngine \<Longrightarrow>
   registerEntries engine rs e =
     (firstError (concat (map entryBindings rs)),
      e @ map (route engine) (takeWhile bindable (concat (map entryBindings rs))))"
proof (induction rs arbitrary: e)
  case Nil
  show ?case by (simp add: firstError_def)
next
  case (Cons en rs)
  have inner: "registerMethods engine (Path en) (Methods en) e =
     (firstError (entryBindings en),
      e @ map (route engine) (takeWhile bindable (entryBindings en)))"
    using registerMethods_scope [OF Cons.prems] by (simp add: entryBindings_def)
  show ?case
  proof (cases "firstError (entryBindings en)")
    case None
    then have all: "takeWhile bindable (entryBindings en) = entryBindings en"
      by (simp add: firstError_None takeWhile_eq_all_conv)
    show ?thesis
      using Cons.IH [OF Cons.prems] None
      by (simp add: inner all firstError_append takeWhile_bindable_append)
  next
    case (Some err)
    then show ?thesis
      by (simp add: inner firstError_append takeWhile_bindable_append)
  qed
qed

lemma registerRouters_scope:
  "engine \<noteq> OtherEngine \<Longrightarrow>
   Server_registerRouters engine routers mws e =
     (case routers of
        None \<Rightarrow> (Some NilDereference, e @ map (Use engine) mws, None)
      | Some r \<Rightarrow>
          (firstError (bindings r),
           e @ map (Use engine) mws @ map (route engine) (takeWhile bindable (bindings r)),
           Some r))"
  by (simp add: Server_registerRouters_def useMiddlewares_scope registerEntries_scope
      GetAllRouters_def bindings_def split: option.splits)

lemma RegisterRouters_valid:
  assumes "ROOT \<le> k" and "k \<le> DOCS"
  shows "Server_RegisterRouters k routers mws e =
     (case routers of
        None \<Rightarrow> (Some NilDereference, resolved k e @ map (Use (scopeOf k e)) mws, None)
      | Some r \<Rightarrow>
          (firstError (bindings r),
           resolved k e @ map (Use (scopeOf k e)) mws @
             map (route (scopeOf k e)) (takeWhile bindable (bindings r)),
           Some r))"
proof (cases "k = ROOT")
  case True
  then show ?thesis
    by (simp add: Server_RegisterRouters_def registerRouters_scope scopeOf_def resolved_def
        split: option.splits)
next
  case False
  with assms have mem: "k \<in> {V1, V2, V3, DEV, API, DOCS}"
    using Kind_valid_cases by blast
  from assms have "Kind_String k = Inr (Kind_names ! nat k)"
    by (intro Kind_String_valid) (simp_all add: Kind_defs)
  with False mem show ?thesis
    by (simp add: Server_RegisterRouters_def Echo_Group_def registerRouters_scope
        scopeOf_def resolved_def split: option.splits)
qed

text \<open>
  Claim C2. When the group is outside \<open>ROOT\<close> .. \<open>DOCS\<close>, \<open>RegisterRouters\<close> returns the
  invalid-group error and the engine is as it was before the call: no group is created,
  no middleware is applied and no route is bound.
\<close>

theorem RegisterRouters_invalid_group:
  assumes "k < ROOT \<or> DOCS < k"
  shows "Server_RegisterRouters k routers mws e = (Some InvalidGroupType, e, routers)"
  using assms by (auto simp: Server_RegisterRouters_def Kind_defs)

theorem RegisterRouters_invalid_group_witness:
  "(999 < ROOT \<or> DOCS < 999) \<and>
   Server_RegisterRouters 999
     (Some \<lparr>PathFixed = ''/api'', Routers = [\<lparr>Path = ''/api/test'', Methods = [(''GET'', 1::nat)]\<rparr>]\<rparr>)
     [7::nat] [Use EchoEngine 5] =
   (Some InvalidGroupType, [Use EchoEngine 5],
    Some \<lparr>PathFixed = ''/api'', Routers = [\<lparr>Path = ''/api/test'', Methods = [(''GET'', 1::nat)]\<rparr>]\<rparr>) \<and>
   (- 1 < ROOT \<or> DOCS < - 1) \<and>
   Server_RegisterRouters (- 1) (None :: nat RegisterRouters option) [7::nat] [] =
   (Some InvalidGroupType, [], None)"
proof -
  have a: "999 < ROOT \<or> DOCS < 999" by (simp add: Kind_defs)
  have b: "- 1 < ROOT \<or> DOCS < - 1" by (simp add: Kind_defs)
  show ?thesis
    using a b
      RegisterRouters_invalid_group [OF a,
        of "Some \<lparr>PathFixed = ''/api'', Routers = [\<lparr>Path = ''/api/test'', Methods = [(''GET'', 1::nat)]\<rparr>]\<rparr>"
           "[7::nat]" "[Use EchoEngine 5]"]
      RegisterRouters_invalid_group [OF b, of "None :: nat RegisterRouters option" "[7::nat]" "[]"]
    by simp
qed

lemma useMiddlewares_mem_eq:
  "useMiddlewares_mem engine mws w = w\<lparr>echo := useMiddlewares engine mws (echo w)\<rparr>"
  by (induction mws arbitrary: w) (auto simp: Echo_Use_mem_def split: engine.splits)

lemma registerMethod_mem_specs:
  "specs (snd (Server_registerMethod_mem engine method path handler w)) = specs w"
  by (simp add: Server_registerMethod_mem_def split: prod.splits)

lemma registerMethods_mem_eq:
  "registerMethods_mem engine path ms w =
     (case registerMethods engine path ms (echo w) of (err, e') \<Rightarrow> (err, w\<lparr>echo := e'\<rparr>))"
proof (induction ms arbitrary: w)
  case Nil
  show ?case by simp
next
  case (Cons mh ms)
  obtain m h where mh: "mh = (m, h)" by (cases mh)
  show ?case
    by (simp add: mh Cons.IH Server_registerMethod_mem_def del: Server_registerMethod.simps
        split: prod.splits option.splits)
qed

lemma registerEntries_mem_eq:
  "registerEntries_mem engine rs w =
     (case registerEntries engine rs (echo w) of (err, e') \<Rightarrow> (err, w\<lparr>echo := e'\<rparr>))"
proof (induction rs arbitrary: w)
  case Nil
  show ?case by simp
next
  case (Cons en rs)
  show ?case
    by (simp add: Cons.IH registerMethods_mem_eq split: prod.splits option.splits)
qed

lemma registerRouters_mem_eq:
  "Server_registerRouters_mem engine routers mws w =
     (case Server_registerRouters engine (map_option (specs w) routers) mws (echo w) of
        (err, e', spec) \<Rightarrow> (err, w\<lparr>echo := e'\<rparr>))"
  by (simp add: Server_registerRouters_mem_def Server_registerRouters_def Let_def
      useMiddlewares_mem_eq registerEntries_mem_eq split: option.splits prod.splits)

lemma RegisterRouters_mem_eq:
  "Server_RegisterRouters_mem k routers mws w =
     (case Server_RegisterRouters k (map_option (specs w) routers) mws (echo w) of
        (err, e', spec) \<Rightarrow> (err, w\<lparr>echo := e'\<rparr>))"
  by (simp add: Server_RegisterRouters_mem_def Server_RegisterRouters_def Echo_Group_mem_def
      Echo_Group_def registerRouters_mem_eq del: insert_iff split: sum.splits prod.splits)

text \<open>
  Claim C8. Whatever the group, the middlewares and the outcome, a call of
  \<open>RegisterRouters\<close> leaves the memory of the route specifications as it was: the
  specification the pointer refers to, and every other one, has the same fixed prefix and
  the same entries, with their paths and method maps, in the same order. The call changes
  the engine only, and it changes it as the function without the memory does.
\<close>

theorem RegisterRouters_keeps_memory:
  "specs (snd (Server_RegisterRouters_mem k routers mws w)) = specs w
   \<and> fst (Server_RegisterRouters_mem k routers mws w) =
       fst (Server_RegisterRouters k (map_option (specs w) routers) mws (echo w))
   \<and> echo (snd (Server_RegisterRouters_mem k routers mws w)) =
       fst (snd (Server_RegisterRouters k (map_option (specs w) routers) mws (echo w)))"
  by (simp add: RegisterRouters_mem_eq split: prod.splits)

lemma firstError_hd:
  "\<exists>b \<in> set bs. \<not> bindable b \<Longrightarrow>
   firstError bs = Some (UnsupportedMethod (fst (hd (dropWhile bindable bs))))"
proof -
  assume "\<exists>b \<in> set bs. \<not> bindable b"
  then have "dropWhile bindable bs \<noteq> []" by auto
  then show ?thesis
    by (cases "dropWhile bindable bs") (simp_all add: firstError_def)
qed

text \<open>
  Claim C3. On a valid group, when some entry has a method outside the fixed set,
  \<open>RegisterRouters\<close> returns the unsupported-method error for the first such method in the
  order in which the entries and their methods are visited. The engine has then received
  the bindings that come before that method, and no binding after it; nothing is rolled
  back.
\<close>

theorem RegisterRouters_unsupported_method:
  assumes "ROOT \<le> k" and "k \<le> DOCS"
    and "\<exists>b \<in> set (bindings r). \<not> bindable b"
  shows "Server_RegisterRouters k (Some r) mws e =
     (Some (UnsupportedMethod (fst (hd (dropWhile bindable (bindings r))))),
      resolved k e @ map (Use (scopeOf k e)) mws @
        map (route (scopeOf k e)) (takeWhile bindable (bindings r)),
      Some r)"
  using RegisterRouters_valid [OF assms(1,2), of "Some r" mws e] firstError_hd [OF assms(3)]
  by simp

theorem RegisterRouters_unsupported_method_witness:
  "ROOT \<le> V1 \<and> V1 \<le> DOCS \<and>
   Server_RegisterRouters V1
     (Some \<lparr>PathFixed = ''/api'',
        Routers = [\<lparr>Path = ''/a'', Methods = [(''GET'', 1::nat), (''FOO'', 2), (''PUT'', 3)]\<rparr>,
                   \<lparr>Path = ''/b'', Methods = [(''POST'', 4)]\<rparr>]\<rparr>)
     [7::nat, 8] [] =
   (Some (UnsupportedMethod ''FOO''),
    [NewGroup ''v1'', Use (GroupEngine 0) 7, Use (GroupEngine 0) 8,
     Add (GroupEngine 0) ''GET'' ''/a'' 1],
    Some \<lparr>PathFixed = ''/api'',
        Routers = [\<lparr>Path = ''/a'', Methods = [(''GET'', 1::nat), (''FOO'', 2), (''PUT'', 3)]\<rparr>,
                   \<lparr>Path = ''/b'', Methods = [(''POST'', 4)]\<rparr>]\<rparr>)"
proof -
  let ?r = "\<lparr>PathFixed = ''/api'',
        Routers = [\<lparr>Path = ''/a'', Methods = [(''GET'', 1::nat), (''FOO'', 2), (''PUT'', 3)]\<rparr>,
                   \<lparr>Path = ''/b'', Methods = [(''POST'', 4)]\<rparr>]\<rparr>"
  have a: "ROOT \<le> V1" and b: "V1 \<le> DOCS" by (simp_all add: Kind_defs)
  have bs: "bindings ?r =
      [(''GET'', ''/a'', 1), (''FOO'', ''/a'', 2), (''PUT'', ''/a'', 3), (''POST'', ''/b'', 4)]"
    by (simp add: bindings_def entryBindings_def)
  have c: "\<exists>b \<in> set (bindings ?r). \<not> bindable b"
    unfolding bs by (simp add: bindable_def set_httpMethods)
  show ?thesis
    using a b RegisterRouters_unsupported_method [OF a b c, of "[7::nat, 8]" "[]"]
    unfolding bs
    by (simp add: bindable_def set_httpMethods route_def scopeOf_def resolved_def
        groupCount_def Kind_defs Kind_names_def)
qed

text \<open>
  Claim C10. On a valid group the engine receives, after the operation that resolves the
  scope, first one \<open>Use\<close> for every middleware, in order, and only then the bindings. This
  holds for every outcome of the call, so when the call fails with the unsupported-method
  error the middlewares of the call are still applied to the scope.
\<close>

theorem RegisterRouters_middlewares_first:
  assumes "ROOT \<le> k" and "k \<le> DOCS"
  shows "fst (snd (Server_RegisterRouters k routers mws e)) =
       resolved k e @ map (Use (scopeOf k e)) mws @
         map (route (scopeOf k e))
           (case routers of None \<Rightarrow> [] | Some r \<Rightarrow> takeWhile bindable (bindings r))
     \<and> set (map (Use (scopeOf k e)) mws) \<subseteq> set (fst (snd (Server_RegisterRouters k routers mws e)))"
  using RegisterRouters_valid [OF assms, of routers mws e]
  by (auto split: option.splits)

theorem RegisterRouters_middlewares_first_witness:
  "ROOT \<le> ROOT \<and> ROOT \<le> DOCS \<and>
   fst (Server_RegisterRouters ROOT
     (Some \<lparr>PathFixed = [], Routers = [\<lparr>Path = ''/a'', Methods = [(''GET'', 5::nat), (''FOO'', 6)]\<rparr>]\<rparr>)
     [7::nat, 8] []) = Some (UnsupportedMethod ''FOO'') \<and>
   fst (snd (Server_RegisterRouters ROOT
     (Some \<lparr>PathFixed = [], Routers = [\<lparr>Path = ''/a'', Methods = [(''GET'', 5::nat), (''FOO'', 6)]\<rparr>]\<rparr>)
     [7::nat, 8] [])) =
   [Use EchoEngine 7, Use EchoEngine 8, Add EchoEngine ''GET'' ''/a'' 5]"
proof -
  let ?r = "\<lparr>PathFixed = [], Routers = [\<lparr>Path = ''/a'', Methods = [(''GET'', 5::nat), (''FOO'', 6)]\<rparr>]\<rparr>"
  have a: "ROOT \<le> ROOT" and b: "ROOT \<le> DOCS" by (simp_all add: Kind_defs)
  have bs: "bindings ?r = [(''GET'', ''/a'', 5), (''FOO'', ''/a'', 6)]"
    by (simp add: bindings_def entryBindings_def)
  have err: "fst (Server_RegisterRouters ROOT (Some ?r) [7::nat, 8] []) =
      Some (UnsupportedMethod ''FOO'')"
    using RegisterRouters_valid [OF a b, of "Some ?r" "[7::nat, 8]" "[]"]
    by (simp add: bs firstError_def bindable_def set_httpMethods)
  show ?thesis
    using a b err RegisterRouters_middlewares_first [OF a b, of "Some ?r" "[7::nat, 8]" "[]"]
    by (simp add: bs bindable_def set_httpMethods route_def scopeOf_def resolved_def)
qed

end
